theory Spec2Isabelle
  imports Main "HOL-Library.Word" "HOL-Library.AList" "HOL-Library.Monad_Syntax"
begin

section \<open>ORCA server metrics (orca/server\_metrics.go)\<close>

subsection \<open>Values, references and the heap\<close>

text \<open>
  A Go \<open>float64\<close> is kept as its IEEE-754 bit pattern. The only operations the file
  performs on a metric are copying it and comparing it with the constant \<open>-1\<close>. The
  number \<open>-1.0\<close> has exactly one encoding and no other value (in particular no NaN)
  compares equal to it, so Go's \<open>x != -1\<close> is inequality of the bit pattern with
  \<open>unset\<close>. A struct field that is never assigned holds the zero value \<open>+0.0\<close>,
  whose bit pattern is \<open>0\<close>.
\<close>

type_synonym float64 = "64 word"

definition unset :: float64 where
  "unset = 0xBFF0000000000000"

definition zero_value :: float64 where
  "zero_value = 0"

text \<open>
  A Go map is a reference to a mutable table. The table is an association list with
  unique keys; its order stands for whatever order \<open>range\<close> visits the entries in.
  \<open>None\<close> is the nil map and the nil pointer.
\<close>

type_synonym gomap = "(string \<times> float64) list"
type_synonym mapref = "nat option"
type_synonym ptr = "nat option"

record ServerMetrics =
  CPUUtilization :: float64
  MemUtilization :: float64
  QPS :: float64
  EPS :: float64
  Utilization :: mapref
  RequestCost :: mapref
  NamedMetrics :: mapref

text \<open>
  The fields of \<open>v3orcapb.OrcaLoadReport\<close> that \<open>toLoadReportProto\<close> touches. They
  are plain \<open>float64\<close> and map fields: the function assigns a \<open>float64\<close> and a
  \<open>map[string]float64\<close> to them directly.
\<close>

record OrcaLoadReport =
  pb_CpuUtilization :: float64
  pb_MemUtilization :: float64
  pb_RpsFractional :: float64
  pb_Eps :: float64
  pb_Utilization :: mapref
  pb_RequestCost :: mapref
  pb_NamedMetrics :: mapref

text \<open>
  The store: every \<open>ServerMetrics\<close> struct and every map table lives at an address,
  which is its index. Allocation appends, so a new address is the current length and
  nothing is ever freed.
\<close>

record heap =
  metrics_store :: "ServerMetrics list"
  map_store :: "gomap list"

record serverMetricsRecorder =
  state :: ptr

subsection \<open>Go primitives on the heap\<close>

text \<open>\<open>None\<close> as a result is a run-time panic (nil dereference, write to a nil map).\<close>

definition load :: "ptr \<Rightarrow> heap \<Rightarrow> ServerMetrics option" where
  "load p h =
     (case p of
        None \<Rightarrow> None
      | Some a \<Rightarrow> if a < length (metrics_store h) then Some (metrics_store h ! a) else None)"

definition store :: "ptr \<Rightarrow> ServerMetrics \<Rightarrow> heap \<Rightarrow> heap option" where
  "store p s h =
     (case p of
        None \<Rightarrow> None
      | Some a \<Rightarrow>
          if a < length (metrics_store h)
          then Some (h\<lparr>metrics_store := (metrics_store h)[a := s]\<rparr>)
          else None)"

definition new_ServerMetrics :: "ServerMetrics \<Rightarrow> heap \<Rightarrow> ptr \<times> heap" where
  "new_ServerMetrics s h =
     (Some (length (metrics_store h)), h\<lparr>metrics_store := metrics_store h @ [s]\<rparr>)"

definition make_map :: "heap \<Rightarrow> mapref \<times> heap" where
  "make_map h = (Some (length (map_store h)), h\<lparr>map_store := map_store h @ [[]]\<rparr>)"

text \<open>The entries \<open>range m\<close> visits; a nil map has none.\<close>

definition map_range :: "mapref \<Rightarrow> heap \<Rightarrow> gomap option" where
  "map_range m h =
     (case m of
        None \<Rightarrow> Some []
      | Some a \<Rightarrow> if a < length (map_store h) then Some (map_store h ! a) else None)"

text \<open>\<open>m[k] = v\<close>: panics on a nil map.\<close>

definition map_assign :: "mapref \<Rightarrow> string \<Rightarrow> float64 \<Rightarrow> heap \<Rightarrow> heap option" where
  "map_assign m k v h =
     (case m of
        None \<Rightarrow> None
      | Some a \<Rightarrow>
          if a < length (map_store h)
          then Some (h\<lparr>map_store := (map_store h)[a := AList.update k v (map_store h ! a)]\<rparr>)
          else None)"

text \<open>\<open>delete(m, k)\<close>: does nothing on a nil map or a missing key.\<close>

definition map_delete :: "mapref \<Rightarrow> string \<Rightarrow> heap \<Rightarrow> heap option" where
  "map_delete m k h =
     (case m of
        None \<Rightarrow> Some h
      | Some a \<Rightarrow>
          if a < length (map_store h)
          then Some (h\<lparr>map_store := (map_store h)[a := AList.delete k (map_store h ! a)]\<rparr>)
          else None)"

text \<open>The loop body \<open>a[k] = v\<close> run over the entries \<open>range\<close> delivers.\<close>

fun range_assign :: "gomap \<Rightarrow> mapref \<Rightarrow> heap \<Rightarrow> heap option" where
  "range_assign [] a h = Some h"
| "range_assign ((k, v) # kvs) a h =
     (case map_assign a k v h of None \<Rightarrow> None | Some h' \<Rightarrow> range_assign kvs a h')"

subsection \<open>ServerMetrics: toLoadReportProto, merge\<close>

definition toLoadReportProto :: "ptr \<Rightarrow> heap \<Rightarrow> OrcaLoadReport option" where
  "toLoadReportProto sm h = do {
     s \<leftarrow> load sm h;
     let ret = \<lparr>pb_CpuUtilization = zero_value, pb_MemUtilization = zero_value,
                pb_RpsFractional = zero_value, pb_Eps = zero_value,
                pb_Utilization = Utilization s,
                pb_RequestCost = RequestCost s,
                pb_NamedMetrics = NamedMetrics s\<rparr>;
     let ret = (if CPUUtilization s \<noteq> unset
                then ret\<lparr>pb_CpuUtilization := CPUUtilization s\<rparr> else ret);
     let ret = (if MemUtilization s \<noteq> unset
                then ret\<lparr>pb_MemUtilization := MemUtilization s\<rparr> else ret);
     let ret = (if QPS s \<noteq> unset then ret\<lparr>pb_RpsFractional := QPS s\<rparr> else ret);
     let ret = (if EPS s \<noteq> unset then ret\<lparr>pb_Eps := EPS s\<rparr> else ret);
     Some ret
   }"

definition mergeMap :: "mapref \<Rightarrow> mapref \<Rightarrow> heap \<Rightarrow> heap option" where
  "mergeMap a b h = do { kvs \<leftarrow> map_range b h; range_assign kvs a h }"

definition merge :: "ptr \<Rightarrow> ptr \<Rightarrow> heap \<Rightarrow> heap option" where
  "merge sm o' h = do {
     ov \<leftarrow> load o' h;
     h \<leftarrow> (if CPUUtilization ov \<noteq> unset
           then do { s \<leftarrow> load sm h; store sm (s\<lparr>CPUUtilization := CPUUtilization ov\<rparr>) h }
           else Some h);
     ov \<leftarrow> load o' h;
     h \<leftarrow> (if MemUtilization ov \<noteq> unset
           then do { s \<leftarrow> load sm h; store sm (s\<lparr>MemUtilization := MemUtilization ov\<rparr>) h }
           else Some h);
     ov \<leftarrow> load o' h;
     h \<leftarrow> (if QPS ov \<noteq> unset
           then do { s \<leftarrow> load sm h; store sm (s\<lparr>QPS := QPS ov\<rparr>) h }
           else Some h);
     ov \<leftarrow> load o' h;
     h \<leftarrow> (if EPS ov \<noteq> unset
           then do { s \<leftarrow> load sm h; store sm (s\<lparr>EPS := EPS ov\<rparr>) h }
           else Some h);
     s \<leftarrow> load sm h;
     ov \<leftarrow> load o' h;
     h \<leftarrow> mergeMap (Utilization s) (Utilization ov) h;
     s \<leftarrow> load sm h;
     ov \<leftarrow> load o' h;
     h \<leftarrow> mergeMap (RequestCost s) (RequestCost ov) h;
     s \<leftarrow> load sm h;
     ov \<leftarrow> load o' h;
     mergeMap (NamedMetrics s) (NamedMetrics ov) h
   }"

subsection \<open>The recorder\<close>

text \<open>
  Every method of the recorder takes \<open>s.mu\<close> on entry and releases it on return, and
  none calls another while holding it (the \<open>Delete\<close> methods for the scalars only
  forward to the setter). A method call is therefore one step on the heap here.
\<close>

definition newServerMetricsRecorder :: "heap \<Rightarrow> serverMetricsRecorder \<times> heap" where
  "newServerMetricsRecorder h =
     (let (u, h) = make_map h;
          (c, h) = make_map h;
          (n, h) = make_map h;
          (p, h) = new_ServerMetrics
                     \<lparr>CPUUtilization = unset, MemUtilization = unset,
                      QPS = unset, EPS = unset,
                      Utilization = u, RequestCost = c, NamedMetrics = n\<rparr> h
      in (\<lparr>state = p\<rparr>, h))"

definition NewServerMetricsRecorder :: "heap \<Rightarrow> serverMetricsRecorder \<times> heap" where
  "NewServerMetricsRecorder h = newServerMetricsRecorder h"

definition copyMap :: "mapref \<Rightarrow> heap \<Rightarrow> (mapref \<times> heap) option" where
  "copyMap m h = do {
     kvs \<leftarrow> map_range m h;
     let (ret, h) = make_map h;
     h \<leftarrow> range_assign kvs ret h;
     Some (ret, h)
   }"

text \<open>The method \<open>ServerMetrics()\<close> of the recorder: the snapshot.\<close>

definition recorder_ServerMetrics ::
    "serverMetricsRecorder \<Rightarrow> heap \<Rightarrow> (ptr \<times> heap) option" where
  "recorder_ServerMetrics r h = do {
     st \<leftarrow> load (state r) h;
     (u, h) \<leftarrow> copyMap (Utilization st) h;
     st' \<leftarrow> load (state r) h;
     (c, h) \<leftarrow> copyMap (RequestCost st') h;
     st'' \<leftarrow> load (state r) h;
     (n, h) \<leftarrow> copyMap (NamedMetrics st'') h;
     Some (new_ServerMetrics
             \<lparr>CPUUtilization = CPUUtilization st, MemUtilization = MemUtilization st,
              QPS = QPS st, EPS = EPS st,
              Utilization = u, RequestCost = c, NamedMetrics = n\<rparr> h)
   }"

definition SetCPUUtilization :: "serverMetricsRecorder \<Rightarrow> float64 \<Rightarrow> heap \<Rightarrow> heap option" where
  "SetCPUUtilization r val h = do {
     st \<leftarrow> load (state r) h;
     store (state r) (st\<lparr>CPUUtilization := val\<rparr>) h
   }"

definition DeleteCPUUtilization :: "serverMetricsRecorder \<Rightarrow> heap \<Rightarrow> heap option" where
  "DeleteCPUUtilization r h = SetCPUUtilization r unset h"

definition SetMemoryUtilization :: "serverMetricsRecorder \<Rightarrow> float64 \<Rightarrow> heap \<Rightarrow> heap option" where
  "SetMemoryUtilization r val h = do {
     st \<leftarrow> load (state r) h;
     store (state r) (st\<lparr>MemUtilization := val\<rparr>) h
   }"

definition DeleteMemoryUtilization :: "serverMetricsRecorder \<Rightarrow> heap \<Rightarrow> heap option" where
  "DeleteMemoryUtilization r h = SetMemoryUtilization r unset h"

definition SetQPS :: "serverMetricsRecorder \<Rightarrow> float64 \<Rightarrow> heap \<Rightarrow> heap option" where
  "SetQPS r val h = do {
     st \<leftarrow> load (state r) h;
     store (state r) (st\<lparr>QPS := val\<rparr>) h
   }"

definition DeleteQPS :: "serverMetricsRecorder \<Rightarrow> heap \<Rightarrow> heap option" where
  "DeleteQPS r h = SetQPS r unset h"

definition SetEPS :: "serverMetricsRecorder \<Rightarrow> float64 \<Rightarrow> heap \<Rightarrow> heap option" where
  "SetEPS r val h = do {
     st \<leftarrow> load (state r) h;
     store (state r) (st\<lparr>EPS := val\<rparr>) h
   }"

definition DeleteEPS :: "serverMetricsRecorder \<Rightarrow> heap \<Rightarrow> heap option" where
  "DeleteEPS r h = SetEPS r unset h"

definition SetNamedUtilization ::
    "serverMetricsRecorder \<Rightarrow> string \<Rightarrow> float64 \<Rightarrow> heap \<Rightarrow> heap option" where
  "SetNamedUtilization r name val h = do {
     st \<leftarrow> load (state r) h;
     map_assign (Utilization st) name val h
   }"

definition DeleteNamedUtilization :: "serverMetricsRecorder \<Rightarrow> string \<Rightarrow> heap \<Rightarrow> heap option" where
  "DeleteNamedUtilization r name h = do {
     st \<leftarrow> load (state r) h;
     map_delete (Utilization st) name h
   }"

definition SetRequestCost ::
    "serverMetricsRecorder \<Rightarrow> string \<Rightarrow> float64 \<Rightarrow> heap \<Rightarrow> heap option" where
  "SetRequestCost r name val h = do {
     st \<leftarrow> load (state r) h;
     map_assign (RequestCost st) name val h
   }"

definition DeleteRequestCost :: "serverMetricsRecorder \<Rightarrow> string \<Rightarrow> heap \<Rightarrow> heap option" where
  "DeleteRequestCost r name h = do {
     st \<leftarrow> load (state r) h;
     map_delete (RequestCost st) name h
   }"

definition SetNamedMetric ::
    "serverMetricsRecorder \<Rightarrow> string \<Rightarrow> float64 \<Rightarrow> heap \<Rightarrow> heap option" where
  "SetNamedMetric r name val h = do {
     st \<leftarrow> load (state r) h;
     map_assign (NamedMetrics st) name val h
   }"

definition DeleteNamedMetric :: "serverMetricsRecorder \<Rightarrow> string \<Rightarrow> heap \<Rightarrow> heap option" where
  "DeleteNamedMetric r name h = do {
     st \<leftarrow> load (state r) h;
     map_delete (NamedMetrics st) name h
   }"

subsection \<open>Client code acting on a ServerMetrics through a pointer\<close>

text \<open>
  What a holder of a \<open>*ServerMetrics\<close> can do to it: assign a scalar field
  (\<open>p.QPS = v\<close>), assign a map entry (\<open>p.Utilization[k] = v\<close>) and delete one
  (\<open>delete(p.Utilization, k)\<close>).
\<close>

datatype scalar_field = F_CPUUtilization | F_MemUtilization | F_QPS | F_EPS

datatype map_field = F_Utilization | F_RequestCost | F_NamedMetrics

fun set_scalar :: "scalar_field \<Rightarrow> float64 \<Rightarrow> ServerMetrics \<Rightarrow> ServerMetrics" where
  "set_scalar F_CPUUtilization v s = s\<lparr>CPUUtilization := v\<rparr>"
| "set_scalar F_MemUtilization v s = s\<lparr>MemUtilization := v\<rparr>"
| "set_scalar F_QPS v s = s\<lparr>QPS := v\<rparr>"
| "set_scalar F_EPS v s = s\<lparr>EPS := v\<rparr>"

fun get_map :: "map_field \<Rightarrow> ServerMetrics \<Rightarrow> mapref" where
  "get_map F_Utilization s = Utilization s"
| "get_map F_RequestCost s = RequestCost s"
| "get_map F_NamedMetrics s = NamedMetrics s"

datatype mutation =
    Assign scalar_field float64
  | Put map_field string float64
  | Remove map_field string

fun mutate :: "mutation \<Rightarrow> ptr \<Rightarrow> heap \<Rightarrow> heap option" where
  "mutate (Assign f v) p h = do { s \<leftarrow> load p h; store p (set_scalar f v s) h }"
| "mutate (Put m k v) p h = do { s \<leftarrow> load p h; map_assign (get_map m s) k v h }"
| "mutate (Remove m k) p h = do { s \<leftarrow> load p h; map_delete (get_map m s) k h }"

text \<open>The mutating methods of the recorder, as data, and a call of one of them.\<close>

datatype recorder_call =
    Call_SetCPUUtilization float64
  | Call_DeleteCPUUtilization
  | Call_SetMemoryUtilization float64
  | Call_DeleteMemoryUtilization
  | Call_SetQPS float64
  | Call_DeleteQPS
  | Call_SetEPS float64
  | Call_DeleteEPS
  | Call_SetNamedUtilization string float64
  | Call_DeleteNamedUtilization string
  | Call_SetRequestCost string float64
  | Call_DeleteRequestCost string
  | Call_SetNamedMetric string float64
  | Call_DeleteNamedMetric string

fun call :: "recorder_call \<Rightarrow> serverMetricsRecorder \<Rightarrow> heap \<Rightarrow> heap option" where
  "call (Call_SetCPUUtilization v) r h = SetCPUUtilization r v h"
| "call Call_DeleteCPUUtilization r h = DeleteCPUUtilization r h"
| "call (Call_SetMemoryUtilization v) r h = SetMemoryUtilization r v h"
| "call Call_DeleteMemoryUtilization r h = DeleteMemoryUtilization r h"
| "call (Call_SetQPS v) r h = SetQPS r v h"
| "call Call_DeleteQPS r h = DeleteQPS r h"
| "call (Call_SetEPS v) r h = SetEPS r v h"
| "call Call_DeleteEPS r h = DeleteEPS r h"
| "call (Call_SetNamedUtilization k v) r h = SetNamedUtilization r k v h"
| "call (Call_DeleteNamedUtilization k) r h = DeleteNamedUtilization r k h"
| "call (Call_SetRequestCost k v) r h = SetRequestCost r k v h"
| "call (Call_DeleteRequestCost k) r h = DeleteRequestCost r k h"
| "call (Call_SetNamedMetric k v) r h = SetNamedMetric r k v h"
| "call (Call_DeleteNamedMetric k) r h = DeleteNamedMetric r k h"

text \<open>The assignment or map operation each method performs on the recorder's state.\<close>

fun mutation_of :: "recorder_call \<Rightarrow> mutation" where
  "mutation_of (Call_SetCPUUtilization v) = Assign F_CPUUtilization v"
| "mutation_of Call_DeleteCPUUtilization = Assign F_CPUUtilization unset"
| "mutation_of (Call_SetMemoryUtilization v) = Assign F_MemUtilization v"
| "mutation_of Call_DeleteMemoryUtilization = Assign F_MemUtilization unset"
| "mutation_of (Call_SetQPS v) = Assign F_QPS v"
| "mutation_of Call_DeleteQPS = Assign F_QPS unset"
| "mutation_of (Call_SetEPS v) = Assign F_EPS v"
| "mutation_of Call_DeleteEPS = Assign F_EPS unset"
| "mutation_of (Call_SetNamedUtilization k v) = Put F_Utilization k v"
| "mutation_of (Call_DeleteNamedUtilization k) = Remove F_Utilization k"
| "mutation_of (Call_SetRequestCost k v) = Put F_RequestCost k v"
| "mutation_of (Call_DeleteRequestCost k) = Remove F_RequestCost k"
| "mutation_of (Call_SetNamedMetric k v) = Put F_NamedMetrics k v"
| "mutation_of (Call_DeleteNamedMetric k) = Remove F_NamedMetrics k"

subsection \<open>What a ServerMetrics denotes, and when it is well formed\<close>

text \<open>The lookup function of a map; reading a nil map finds nothing.\<close>

definition map_contents :: "mapref \<Rightarrow> heap \<Rightarrow> string \<rightharpoonup> float64" where
  "map_contents m h = (case map_range m h of None \<Rightarrow> Map.empty | Some kvs \<Rightarrow> map_of kvs)"

record metrics =
  m_cpu :: float64
  m_mem :: float64
  m_qps :: float64
  m_eps :: float64
  m_utilization :: "string \<rightharpoonup> float64"
  m_request_cost :: "string \<rightharpoonup> float64"
  m_named_metrics :: "string \<rightharpoonup> float64"

definition value_of :: "ServerMetrics \<Rightarrow> heap \<Rightarrow> metrics" where
  "value_of s h =
     \<lparr>m_cpu = CPUUtilization s, m_mem = MemUtilization s, m_qps = QPS s, m_eps = EPS s,
      m_utilization = map_contents (Utilization s) h,
      m_request_cost = map_contents (RequestCost s) h,
      m_named_metrics = map_contents (NamedMetrics s) h\<rparr>"

definition value_at :: "ptr \<Rightarrow> heap \<Rightarrow> metrics option" where
  "value_at p h = map_option (\<lambda>s. value_of s h) (load p h)"

definition unset_default :: metrics where
  "unset_default =
     \<lparr>m_cpu = unset, m_mem = unset, m_qps = unset, m_eps = unset,
      m_utilization = Map.empty, m_request_cost = Map.empty, m_named_metrics = Map.empty\<rparr>"

text \<open>
  A map reference is live when it is not nil and points to an allocated table whose
  keys are unique. A ServerMetrics is well formed when its three maps are live and are
  three different tables (``the following maps must never be nil'', each owned by the
  struct). Two structs are separate when they share no table.
\<close>

definition live_map :: "mapref \<Rightarrow> heap \<Rightarrow> bool" where
  "live_map m h =
     (case m of
        None \<Rightarrow> False
      | Some a \<Rightarrow> a < length (map_store h) \<and> distinct (map fst (map_store h ! a)))"

definition wf_metrics :: "ServerMetrics \<Rightarrow> heap \<Rightarrow> bool" where
  "wf_metrics s h \<longleftrightarrow>
     live_map (Utilization s) h \<and> live_map (RequestCost s) h \<and> live_map (NamedMetrics s) h \<and>
     distinct [Utilization s, RequestCost s, NamedMetrics s]"

definition separate :: "ServerMetrics \<Rightarrow> ServerMetrics \<Rightarrow> bool" where
  "separate s t \<longleftrightarrow>
     set [Utilization s, RequestCost s, NamedMetrics s] \<inter>
     set [Utilization t, RequestCost t, NamedMetrics t] = {}"

definition recorder_inv :: "serverMetricsRecorder \<Rightarrow> heap \<Rightarrow> bool" where
  "recorder_inv r h = (case load (state r) h of None \<Rightarrow> False | Some st \<Rightarrow> wf_metrics st h)"

subsection \<open>Example states\<close>

text \<open>
  Two metrics values in one heap, after the merge example: \<open>A\<close> has CPU utilization
  0.3, errors per second 0 and utilization \<open>{a: 1}\<close>, request cost \<open>{c: 5}\<close>;
  \<open>B\<close> has 10 queries per second and utilization \<open>{a: 2, b: 3}\<close>. A recorder
  whose state is \<open>A\<close>.
\<close>

definition ex_A :: ServerMetrics where
  "ex_A = \<lparr>CPUUtilization = 0x3FD3333333333333, MemUtilization = unset,
           QPS = unset, EPS = zero_value,
           Utilization = Some 0, RequestCost = Some 1, NamedMetrics = Some 2\<rparr>"

definition ex_B :: ServerMetrics where
  "ex_B = \<lparr>CPUUtilization = unset, MemUtilization = unset,
           QPS = 0x4024000000000000, EPS = unset,
           Utilization = Some 3, RequestCost = Some 4, NamedMetrics = Some 5\<rparr>"

definition ex_heap :: heap where
  "ex_heap =
     \<lparr>metrics_store = [ex_A, ex_B],
      map_store = [[(''a'', 0x3FF0000000000000)], [(''c'', 0x4014000000000000)], [],
                   [(''a'', 0x4000000000000000), (''b'', 0x4008000000000000)], [], []]\<rparr>"

text \<open>The same heap with the unset default, on empty maps, in the place of \<open>B\<close>.\<close>

definition ex_unset :: ServerMetrics where
  "ex_unset = \<lparr>CPUUtilization = unset, MemUtilization = unset, QPS = unset, EPS = unset,
               Utilization = Some 3, RequestCost = Some 4, NamedMetrics = Some 5\<rparr>"

definition ex_heap_unset :: heap where
  "ex_heap_unset =
     \<lparr>metrics_store = [ex_A, ex_unset],
      map_store = [[(''a'', 0x3FF0000000000000)], [(''c'', 0x4014000000000000)], [],
                   [], [], []]\<rparr>"

definition ex_recorder :: serverMetricsRecorder where
  "ex_recorder = \<lparr>state = Some 0\<rparr>"

section \<open>Properties\<close>

subsection \<open>Running map assignments over an association list\<close>

lemma update_fresh: "k \<notin> fst ` set al \<Longrightarrow> AList.update k v al = al @ [(k, v)]"
  by (induction al) auto

lemma fold_update_append:
  "distinct (map fst kvs) \<Longrightarrow> fst ` set kvs \<inter> fst ` set al = {} \<Longrightarrow>
   fold (\<lambda>(k, v). AList.update k v) kvs al = al @ kvs"
proof (induction kvs arbitrary: al)
  case Nil
  then show ?case by simp
next
  case (Cons kv kvs)
  obtain k v where kv: "kv = (k, v)" by (cases kv)
  from Cons.prems have fresh: "k \<notin> fst ` set al" and d: "distinct (map fst kvs)"
    and k: "k \<notin> fst ` set kvs" and disj: "fst ` set kvs \<inter> fst ` set al = {}"
    by (auto simp: kv)
  have "fst ` set kvs \<inter> fst ` set (al @ [(k, v)]) = {}"
    using k disj by auto
  from Cons.IH [OF d this] show ?case
    by (simp add: kv update_fresh [OF fresh])
qed

lemma fold_update_Nil:
  "distinct (map fst kvs) \<Longrightarrow> fold (\<lambda>(k, v). AList.update k v) kvs [] = kvs"
  using fold_update_append [of kvs "[]"] by simp

lemma map_of_fold_update:
  "distinct (map fst kvs) \<Longrightarrow>
   map_of (fold (\<lambda>(k, v). AList.update k v) kvs al) = map_of al ++ map_of kvs"
proof (induction kvs arbitrary: al)
  case Nil
  then show ?case by simp
next
  case (Cons kv kvs)
  obtain k v where kv: "kv = (k, v)" by (cases kv)
  from Cons.prems have d: "distinct (map fst kvs)" and k: "map_of kvs k = None"
    by (auto simp: kv map_of_eq_None_iff)
  have "map_of (fold (\<lambda>(k, v). AList.update k v) (kv # kvs) al)
        = map_of (AList.update k v al) ++ map_of kvs"
    using Cons.IH [OF d, of "AList.update k v al"] by (simp add: kv)
  also have "\<dots> = map_of al ++ map_of (kv # kvs)"
  proof (rule ext)
    fix x show "(map_of (AList.update k v al) ++ map_of kvs) x = (map_of al ++ map_of (kv # kvs)) x"
      using k by (cases "x = k") (simp_all add: kv update_conv' map_add_def split: option.split)
  qed
  finally show ?case .
qed

lemma distinct_fold_update:
  "distinct (map fst al) \<Longrightarrow> distinct (map fst (fold (\<lambda>(k, v). AList.update k v) kvs al))"
  by (induction kvs arbitrary: al) (auto simp: distinct_update)

lemma fold_update_triv:
  "(\<And>k v. (k, v) \<in> set kvs \<Longrightarrow> map_of al k = Some v) \<Longrightarrow>
   fold (\<lambda>(k, v). AList.update k v) kvs al = al"
proof (induction kvs)
  case Nil
  then show ?case by simp
next
  case (Cons kv kvs)
  obtain k v where kv: "kv = (k, v)" by (cases kv)
  have "AList.update k v al = al"
    using Cons.prems [of k v] by (simp add: kv update_triv)
  then show ?case using Cons by (simp add: kv)
qed

lemma fold_update_idem:
  assumes "distinct (map fst kvs)"
  shows "fold (\<lambda>(k, v). AList.update k v) kvs (fold (\<lambda>(k, v). AList.update k v) kvs al)
         = fold (\<lambda>(k, v). AList.update k v) kvs al"
proof (rule fold_update_triv)
  fix k v assume "(k, v) \<in> set kvs"
  then have "map_of kvs k = Some v" using assms by simp
  then show "map_of (fold (\<lambda>(k, v). AList.update k v) kvs al) k = Some v"
    by (simp add: map_of_fold_update [OF assms] map_add_def)
qed

lemma range_assign_live:
  "a < length (map_store h) \<Longrightarrow>
   range_assign kvs (Some a) h =
     Some (h\<lparr>map_store := (map_store h)[a := fold (\<lambda>(k, v). AList.update k v) kvs (map_store h ! a)]\<rparr>)"
  by (induction kvs arbitrary: h) (auto simp: map_assign_def)

subsection \<open>Copying a map and taking a snapshot\<close>

lemma load_map_store [simp]: "load p (h\<lparr>map_store := ms\<rparr>) = load p h"
  by (simp add: load_def split: option.split)

lemma map_range_metrics_store [simp]: "map_range m (h\<lparr>metrics_store := xs\<rparr>) = map_range m h"
  by (simp add: map_range_def split: option.split)

lemma live_mapD:
  "live_map m h \<Longrightarrow> \<exists>a. m = Some a \<and> a < length (map_store h) \<and> distinct (map fst (map_store h ! a))"
  by (cases m) (simp_all add: live_map_def)

lemma copyMap_live:
  assumes "a < length (map_store h)" "distinct (map fst (map_store h ! a))"
  shows "copyMap (Some a) h =
           Some (Some (length (map_store h)), h\<lparr>map_store := map_store h @ [map_store h ! a]\<rparr>)"
  using assms
  by (simp add: copyMap_def map_range_def make_map_def range_assign_live fold_update_Nil)

lemma snapshot_result:
  assumes st: "load (state r) h = Some st"
    and u: "Utilization st = Some u" "u < length (map_store h)" "distinct (map fst (map_store h ! u))"
    and c: "RequestCost st = Some c" "c < length (map_store h)" "distinct (map fst (map_store h ! c))"
    and n: "NamedMetrics st = Some n" "n < length (map_store h)" "distinct (map fst (map_store h ! n))"
  shows "recorder_ServerMetrics r h =
           Some (Some (length (metrics_store h)),
                 h\<lparr>metrics_store := metrics_store h @
                      [\<lparr>CPUUtilization = CPUUtilization st, MemUtilization = MemUtilization st,
                        QPS = QPS st, EPS = EPS st,
                        Utilization = Some (length (map_store h)),
                        RequestCost = Some (Suc (length (map_store h))),
                        NamedMetrics = Some (Suc (Suc (length (map_store h))))\<rparr>],
                   map_store := map_store h @
                      [map_store h ! u, map_store h ! c, map_store h ! n]\<rparr>)"
  unfolding recorder_ServerMetrics_def
  using assms by (simp add: copyMap_live new_ServerMetrics_def nth_append)

subsection \<open>The load report\<close>

lemma toLoadReportProto_result:
  "load sm h = Some s \<Longrightarrow>
   toLoadReportProto sm h =
     Some \<lparr>pb_CpuUtilization = (if CPUUtilization s = unset then zero_value else CPUUtilization s),
           pb_MemUtilization = (if MemUtilization s = unset then zero_value else MemUtilization s),
           pb_RpsFractional = (if QPS s = unset then zero_value else QPS s),
           pb_Eps = (if EPS s = unset then zero_value else EPS s),
           pb_Utilization = Utilization s,
           pb_RequestCost = RequestCost s,
           pb_NamedMetrics = NamedMetrics s\<rparr>"
  by (simp add: toLoadReportProto_def)

lemma ex_load_A: "load (Some 0) ex_heap = Some ex_A"
  by (simp add: load_def ex_heap_def)

text \<open>
  Claim C2, as amended. \<open>toLoadReportProto\<close> never fails on a valid pointer, and
  each scalar field of the report (cpu\_utilization, mem\_utilization, rps\_fractional
  from QPS, eps) holds the scalar of the metrics when that scalar is not the sentinel
  \<open>-1\<close>, and is left at the zero value of the field, which is how the report omits
  it, when the scalar is \<open>-1\<close>. So for every \<open>v\<close> other than zero the field holds
  \<open>v\<close> exactly when the scalar is \<open>v\<close> and \<open>v\<close> is not the sentinel.
\<close>

theorem toLoadReportProto_scalars:
  assumes "load sm h = Some s"
  shows "\<exists>rep. toLoadReportProto sm h = Some rep \<and>
           pb_CpuUtilization rep = (if CPUUtilization s = unset then zero_value else CPUUtilization s) \<and>
           pb_MemUtilization rep = (if MemUtilization s = unset then zero_value else MemUtilization s) \<and>
           pb_RpsFractional rep = (if QPS s = unset then zero_value else QPS s) \<and>
           pb_Eps rep = (if EPS s = unset then zero_value else EPS s) \<and>
           (\<forall>v. v \<noteq> zero_value \<longrightarrow>
              (pb_CpuUtilization rep = v \<longleftrightarrow> CPUUtilization s = v \<and> v \<noteq> unset) \<and>
              (pb_MemUtilization rep = v \<longleftrightarrow> MemUtilization s = v \<and> v \<noteq> unset) \<and>
              (pb_RpsFractional rep = v \<longleftrightarrow> QPS s = v \<and> v \<noteq> unset) \<and>
              (pb_Eps rep = v \<longleftrightarrow> EPS s = v \<and> v \<noteq> unset))"
  using toLoadReportProto_result [OF assms] by auto

text \<open>
  The report of the example value \<open>A\<close>: CPU utilization 0.3 is reported, the unset
  memory utilization and QPS are omitted.
\<close>

theorem toLoadReportProto_scalars_witness:
  "load (Some 0) ex_heap = Some ex_A \<and>
   (\<exists>rep. toLoadReportProto (Some 0) ex_heap = Some rep \<and>
      pb_CpuUtilization rep = 0x3FD3333333333333 \<and>
      pb_MemUtilization rep = zero_value \<and>
      pb_RpsFractional rep = zero_value \<and>
      pb_Eps rep = zero_value)"
  using toLoadReportProto_scalars [OF ex_load_A]
  by (auto simp add: ex_load_A ex_A_def unset_def zero_value_def)

text \<open>
  Claim C2 as stated fails for a scalar that is \<open>0\<close>. The example value \<open>A\<close> has
  errors per second \<open>0\<close>, which is not the sentinel, yet its report has eps at the zero
  value, and the report is the same one the function returns when eps is the sentinel:
  the report cannot hold the field ``with value 0'' in one case and omit it in the
  other.
\<close>

theorem toLoadReportProto_zero_counterexample:
  "load (Some 0) ex_heap = Some ex_A \<and> EPS ex_A = zero_value \<and> zero_value \<noteq> unset \<and>
   toLoadReportProto (Some 0) ex_heap =
     Some \<lparr>pb_CpuUtilization = 0x3FD3333333333333, pb_MemUtilization = zero_value,
           pb_RpsFractional = zero_value, pb_Eps = zero_value,
           pb_Utilization = Some 0, pb_RequestCost = Some 1, pb_NamedMetrics = Some 2\<rparr> \<and>
   toLoadReportProto (Some 0) (ex_heap\<lparr>metrics_store := [ex_A\<lparr>EPS := unset\<rparr>, ex_B]\<rparr>) =
     toLoadReportProto (Some 0) ex_heap"
  by (simp add: toLoadReportProto_def load_def ex_heap_def ex_A_def unset_def zero_value_def)

text \<open>
  Claim C4, as amended. The report carries all three maps, request\_cost included: each
  map field of the report is the very reference held by the metrics (the table is shared,
  not copied), so it has the contents of the corresponding map of the metrics.
\<close>

theorem toLoadReportProto_maps:
  assumes "load sm h = Some s"
  shows "\<exists>rep. toLoadReportProto sm h = Some rep \<and>
           pb_Utilization rep = Utilization s \<and>
           pb_RequestCost rep = RequestCost s \<and>
           pb_NamedMetrics rep = NamedMetrics s \<and>
           map_contents (pb_Utilization rep) h = m_utilization (value_of s h) \<and>
           map_contents (pb_RequestCost rep) h = m_request_cost (value_of s h) \<and>
           map_contents (pb_NamedMetrics rep) h = m_named_metrics (value_of s h)"
  using toLoadReportProto_result [OF assms] by (simp add: value_of_def)

text \<open>
  The report of the example value \<open>A\<close> refers to the three tables of \<open>A\<close>.
\<close>

theorem toLoadReportProto_maps_witness:
  "load (Some 0) ex_heap = Some ex_A \<and>
   (\<exists>rep. toLoadReportProto (Some 0) ex_heap = Some rep \<and>
      pb_Utilization rep = Some 0 \<and> pb_RequestCost rep = Some 1 \<and> pb_NamedMetrics rep = Some 2)"
  using toLoadReportProto_maps [OF ex_load_A]
  by (auto simp add: ex_load_A ex_A_def)

text \<open>
  Claim C4 as stated fails: the example value \<open>A\<close> has request cost \<open>{c: 5}\<close>, and
  its report has that table as its request\_cost, where \<open>c\<close> is \<open>5\<close>.
\<close>

theorem toLoadReportProto_request_cost_counterexample:
  "toLoadReportProto (Some 0) ex_heap =
     Some \<lparr>pb_CpuUtilization = 0x3FD3333333333333, pb_MemUtilization = zero_value,
           pb_RpsFractional = zero_value, pb_Eps = zero_value,
           pb_Utilization = Some 0, pb_RequestCost = Some 1, pb_NamedMetrics = Some 2\<rparr> \<and>
   map_contents (Some 1) ex_heap ''c'' = Some 0x4014000000000000"
  by (simp add: toLoadReportProto_def load_def map_contents_def map_range_def
      ex_heap_def ex_A_def unset_def zero_value_def)

subsection \<open>Frame rules for the heap primitives\<close>

lemma map_contents_live:
  "a < length (map_store h) \<Longrightarrow> map_contents (Some a) h = map_of (map_store h ! a)"
  by (simp add: map_contents_def map_range_def)

lemma map_contents_metrics_store [simp]:
  "map_contents m (h\<lparr>metrics_store := xs\<rparr>) = map_contents m h"
  by (simp add: map_contents_def)

lemma live_map_metrics_store [simp]:
  "live_map m (h\<lparr>metrics_store := xs\<rparr>) = live_map m h"
  by (simp add: live_map_def split: option.split)

lemma wf_metrics_metrics_store [simp]:
  "wf_metrics s (h\<lparr>metrics_store := xs\<rparr>) = wf_metrics s h"
  by (simp add: wf_metrics_def)

lemma value_of_metrics_store [simp]:
  "value_of s (h\<lparr>metrics_store := xs\<rparr>) = value_of s h"
  by (simp add: value_of_def)

lemma load_Some_iff:
  "load p h = Some s \<longleftrightarrow> (\<exists>a. p = Some a \<and> a < length (metrics_store h) \<and> metrics_store h ! a = s)"
  by (cases p) (auto simp: load_def)

lemma store_live:
  "a < length (metrics_store h) \<Longrightarrow>
   store (Some a) s h = Some (h\<lparr>metrics_store := (metrics_store h)[a := s]\<rparr>)"
  by (simp add: store_def)

lemma load_update:
  "load (Some b) (h\<lparr>metrics_store := (metrics_store h)[a := s]\<rparr>) =
     (if b < length (metrics_store h) then Some (if b = a then s else metrics_store h ! b) else None)"
  by (simp add: load_def)

lemma wf_metricsD:
  assumes "wf_metrics s h"
  obtains u c n where
    "Utilization s = Some u" "RequestCost s = Some c" "NamedMetrics s = Some n"
    "u < length (map_store h)" "c < length (map_store h)" "n < length (map_store h)"
    "distinct (map fst (map_store h ! u))" "distinct (map fst (map_store h ! c))"
    "distinct (map fst (map_store h ! n))"
    "u \<noteq> c" "u \<noteq> n" "c \<noteq> n"
proof -
  from assms obtain u c n where
    "Utilization s = Some u \<and> u < length (map_store h) \<and> distinct (map fst (map_store h ! u))"
    "RequestCost s = Some c \<and> c < length (map_store h) \<and> distinct (map fst (map_store h ! c))"
    "NamedMetrics s = Some n \<and> n < length (map_store h) \<and> distinct (map fst (map_store h ! n))"
    unfolding wf_metrics_def by (blast dest: live_mapD)
  moreover from assms this have "u \<noteq> c" "u \<noteq> n" "c \<noteq> n"
    by (auto simp: wf_metrics_def)
  ultimately show thesis by (blast intro: that)
qed

lemma recorder_invD:
  assumes "recorder_inv r h"
  obtains a st where
    "state r = Some a" "a < length (metrics_store h)" "metrics_store h ! a = st"
    "load (state r) h = Some st" "wf_metrics st h"
proof -
  from assms obtain st where st: "load (state r) h = Some st" "wf_metrics st h"
    by (auto simp: recorder_inv_def split: option.splits)
  then show thesis using that by (auto simp: load_Some_iff)
qed


subsection \<open>Construction and snapshot\<close>

lemma newServerMetricsRecorder_result:
  "newServerMetricsRecorder h =
     (\<lparr>state = Some (length (metrics_store h))\<rparr>,
      h\<lparr>metrics_store := metrics_store h @
           [\<lparr>CPUUtilization = unset, MemUtilization = unset, QPS = unset, EPS = unset,
             Utilization = Some (length (map_store h)),
             RequestCost = Some (Suc (length (map_store h))),
             NamedMetrics = Some (Suc (Suc (length (map_store h))))\<rparr>],
        map_store := map_store h @ [[], [], []]\<rparr>)"
  by (simp add: newServerMetricsRecorder_def make_map_def new_ServerMetrics_def)

lemma snapshot_spec:
  assumes "recorder_inv r h"
  obtains p h' st snap where
    "recorder_ServerMetrics r h = Some (p, h')"
    "load (state r) h = Some st" "load (state r) h' = Some st"
    "load p h' = Some snap"
    "value_of snap h' = value_of st h" "value_of st h' = value_of st h"
    "wf_metrics snap h'" "wf_metrics st h'" "separate snap st" "p \<noteq> state r"
    "p = Some (length (metrics_store h))"
    "metrics_store h' = metrics_store h @ [snap]"
    "take (length (map_store h)) (map_store h') = map_store h"
    "Utilization snap = Some (length (map_store h))"
    "RequestCost snap = Some (Suc (length (map_store h)))"
    "NamedMetrics snap = Some (Suc (Suc (length (map_store h))))"
    "length (map_store h') = length (map_store h) + 3"
proof -
  from assms obtain a st where a: "state r = Some a" "a < length (metrics_store h)"
    and st: "load (state r) h = Some st" "wf_metrics st h"
    by (rule recorder_invD)
  from st(2) obtain u c n where m:
    "Utilization st = Some u" "RequestCost st = Some c" "NamedMetrics st = Some n"
    "u < length (map_store h)" "c < length (map_store h)" "n < length (map_store h)"
    "distinct (map fst (map_store h ! u))" "distinct (map fst (map_store h ! c))"
    "distinct (map fst (map_store h ! n))"
    "u \<noteq> c" "u \<noteq> n" "c \<noteq> n"
    by (rule wf_metricsD)
  let ?snap = "\<lparr>CPUUtilization = CPUUtilization st, MemUtilization = MemUtilization st,
                        QPS = QPS st, EPS = EPS st,
                        Utilization = Some (length (map_store h)),
                        RequestCost = Some (Suc (length (map_store h))),
                        NamedMetrics = Some (Suc (Suc (length (map_store h))))\<rparr>"
  let ?h' = "h\<lparr>metrics_store := metrics_store h @ [?snap],
                   map_store := map_store h @ [map_store h ! u, map_store h ! c, map_store h ! n]\<rparr>"
  have res: "recorder_ServerMetrics r h = Some (Some (length (metrics_store h)), ?h')"
    using st(1) m by (simp add: snapshot_result)
  show thesis
  proof (rule that [OF res st(1)])
    show "load (state r) ?h' = Some st"
      using st(1) a by (simp add: load_def nth_append)
    show "load (Some (length (metrics_store h))) ?h' = Some ?snap"
      by (simp add: load_def)
    show "value_of ?snap ?h' = value_of st h"
      using m by (simp add: value_of_def map_contents_live nth_append)
    show "value_of st ?h' = value_of st h"
      using m by (simp add: value_of_def map_contents_live nth_append)
    show "wf_metrics ?snap ?h'"
      using m by (simp add: wf_metrics_def live_map_def nth_append)
    show "wf_metrics st ?h'"
      using m by (simp add: wf_metrics_def live_map_def nth_append)
    show "separate ?snap st"
      using m by (auto simp: separate_def)
    show "Some (length (metrics_store h)) \<noteq> state r"
      using a by simp
  qed simp_all
qed

subsection \<open>Setting a scalar, then taking a snapshot\<close>

lemma wf_metrics_same_maps:
  "Utilization s' = Utilization s \<Longrightarrow> RequestCost s' = RequestCost s \<Longrightarrow>
   NamedMetrics s' = NamedMetrics s \<Longrightarrow> wf_metrics s' h = wf_metrics s h"
  by (simp add: wf_metrics_def)

lemma value_of_scalars:
  "m_cpu (value_of s h) = CPUUtilization s" "m_mem (value_of s h) = MemUtilization s"
  "m_qps (value_of s h) = QPS s" "m_eps (value_of s h) = EPS s"
  by (simp_all add: value_of_def)

lemma value_at_load: "load p h = Some s \<Longrightarrow> value_at p h = Some (value_of s h)"
  by (simp add: value_at_def)

lemma store_then_snapshot:
  assumes inv: "recorder_inv r h" and st: "load (state r) h = Some st"
    and maps: "Utilization s' = Utilization st" "RequestCost s' = RequestCost st"
      "NamedMetrics s' = NamedMetrics st"
  obtains h1 p h2 snap rep where
    "store (state r) s' h = Some h1" "recorder_inv r h1"
    "recorder_ServerMetrics r h1 = Some (p, h2)" "load p h2 = Some snap"
    "value_at p h2 = Some (value_of s' h)"
    "CPUUtilization snap = CPUUtilization s'" "MemUtilization snap = MemUtilization s'"
    "QPS snap = QPS s'" "EPS snap = EPS s'"
    "toLoadReportProto p h2 = Some rep"
    "pb_CpuUtilization rep = (if CPUUtilization s' = unset then zero_value else CPUUtilization s')"
    "pb_MemUtilization rep = (if MemUtilization s' = unset then zero_value else MemUtilization s')"
    "pb_RpsFractional rep = (if QPS s' = unset then zero_value else QPS s')"
    "pb_Eps rep = (if EPS s' = unset then zero_value else EPS s')"
proof -
  from inv st have wf: "wf_metrics st h"
    by (simp add: recorder_inv_def)
  from st obtain a where a: "state r = Some a" "a < length (metrics_store h)"
    by (auto simp: load_Some_iff)
  let ?h1 = "h\<lparr>metrics_store := (metrics_store h)[a := s']\<rparr>"
  have s1: "store (state r) s' h = Some ?h1"
    using a by (simp add: store_live)
  have l1: "load (state r) ?h1 = Some s'"
    using a by (simp add: load_update)
  have inv1: "recorder_inv r ?h1"
    using l1 wf by (simp add: recorder_inv_def wf_metrics_same_maps [OF maps])
  from inv1 obtain p h2 st1 snap where snap:
    "recorder_ServerMetrics r ?h1 = Some (p, h2)" "load (state r) ?h1 = Some st1"
    "load p h2 = Some snap" "value_of snap h2 = value_of st1 ?h1"
    by (rule snapshot_spec)
  from snap(2) l1 have st1: "st1 = s'" by simp
  have v: "value_of snap h2 = value_of s' h"
    using snap(4) st1 by simp
  have sc: "CPUUtilization snap = CPUUtilization s'" "MemUtilization snap = MemUtilization s'"
    "QPS snap = QPS s'" "EPS snap = EPS s'"
    using arg_cong [OF v, of m_cpu] arg_cong [OF v, of m_mem]
      arg_cong [OF v, of m_qps] arg_cong [OF v, of m_eps]
    by (simp_all only: value_of_scalars)
  have va: "value_at p h2 = Some (value_of s' h)"
    by (simp only: value_at_load [OF snap(3)] v)
  note rep = toLoadReportProto_result [OF snap(3), unfolded sc]
  show thesis
    by (rule that [OF s1 inv1 snap(1) snap(3) va sc rep]) simp_all
qed

subsection \<open>Deleting a scalar\<close>

lemma ex_recorder_inv: "recorder_inv ex_recorder ex_heap"
  by (simp add: recorder_inv_def ex_recorder_def load_def ex_heap_def ex_A_def
      wf_metrics_def live_map_def)

lemma DeleteCPUUtilization_snapshot:
  assumes "recorder_inv r h"
  shows "\<exists>h1 p h2 snap rep.
           DeleteCPUUtilization r h = Some h1 \<and> recorder_ServerMetrics r h1 = Some (p, h2) \<and>
           load p h2 = Some snap \<and> CPUUtilization snap = unset \<and>
           toLoadReportProto p h2 = Some rep \<and> pb_CpuUtilization rep = zero_value"
proof -
  from assms obtain st where st: "load (state r) h = Some st"
    by (auto elim: recorder_invD)
  show ?thesis
    by (rule store_then_snapshot [OF assms st, of "st\<lparr>CPUUtilization := unset\<rparr>"])
      (auto simp: DeleteCPUUtilization_def SetCPUUtilization_def st)
qed

lemma DeleteMemoryUtilization_snapshot:
  assumes "recorder_inv r h"
  shows "\<exists>h1 p h2 snap rep.
           DeleteMemoryUtilization r h = Some h1 \<and> recorder_ServerMetrics r h1 = Some (p, h2) \<and>
           load p h2 = Some snap \<and> MemUtilization snap = unset \<and>
           toLoadReportProto p h2 = Some rep \<and> pb_MemUtilization rep = zero_value"
proof -
  from assms obtain st where st: "load (state r) h = Some st"
    by (auto elim: recorder_invD)
  show ?thesis
    by (rule store_then_snapshot [OF assms st, of "st\<lparr>MemUtilization := unset\<rparr>"])
      (auto simp: DeleteMemoryUtilization_def SetMemoryUtilization_def st)
qed

lemma DeleteQPS_snapshot:
  assumes "recorder_inv r h"
  shows "\<exists>h1 p h2 snap rep.
           DeleteQPS r h = Some h1 \<and> recorder_ServerMetrics r h1 = Some (p, h2) \<and>
           load p h2 = Some snap \<and> QPS snap = unset \<and>
           toLoadReportProto p h2 = Some rep \<and> pb_RpsFractional rep = zero_value"
proof -
  from assms obtain st where st: "load (state r) h = Some st"
    by (auto elim: recorder_invD)
  show ?thesis
    by (rule store_then_snapshot [OF assms st, of "st\<lparr>QPS := unset\<rparr>"])
      (auto simp: DeleteQPS_def SetQPS_def st)
qed

lemma DeleteEPS_snapshot:
  assumes "recorder_inv r h"
  shows "\<exists>h1 p h2 snap rep.
           DeleteEPS r h = Some h1 \<and> recorder_ServerMetrics r h1 = Some (p, h2) \<and>
           load p h2 = Some snap \<and> EPS snap = unset \<and>
           toLoadReportProto p h2 = Some rep \<and> pb_Eps rep = zero_value"
proof -
  from assms obtain st where st: "load (state r) h = Some st"
    by (auto elim: recorder_invD)
  show ?thesis
    by (rule store_then_snapshot [OF assms st, of "st\<lparr>EPS := unset\<rparr>"])
      (auto simp: DeleteEPS_def SetEPS_def st)
qed

text \<open>
  Claim C7. Each scalar delete is the setter called with the sentinel. On a recorder whose
  state is well formed it succeeds, and a snapshot taken afterwards has the field equal
  to the sentinel; the load report of that snapshot leaves the field at its zero value,
  that is, omits it.
\<close>

theorem delete_scalar_is_set_unset:
  assumes "recorder_inv r h"
  shows "(DeleteCPUUtilization r h = SetCPUUtilization r unset h \<and>
          (\<exists>h1 p h2 snap rep.
             DeleteCPUUtilization r h = Some h1 \<and> recorder_ServerMetrics r h1 = Some (p, h2) \<and>
             load p h2 = Some snap \<and> CPUUtilization snap = unset \<and>
             toLoadReportProto p h2 = Some rep \<and> pb_CpuUtilization rep = zero_value)) \<and>
         (DeleteMemoryUtilization r h = SetMemoryUtilization r unset h \<and>
          (\<exists>h1 p h2 snap rep.
             DeleteMemoryUtilization r h = Some h1 \<and> recorder_ServerMetrics r h1 = Some (p, h2) \<and>
             load p h2 = Some snap \<and> MemUtilization snap = unset \<and>
             toLoadReportProto p h2 = Some rep \<and> pb_MemUtilization rep = zero_value)) \<and>
         (DeleteQPS r h = SetQPS r unset h \<and>
          (\<exists>h1 p h2 snap rep.
             DeleteQPS r h = Some h1 \<and> recorder_ServerMetrics r h1 = Some (p, h2) \<and>
             load p h2 = Some snap \<and> QPS snap = unset \<and>
             toLoadReportProto p h2 = Some rep \<and> pb_RpsFractional rep = zero_value)) \<and>
         (DeleteEPS r h = SetEPS r unset h \<and>
          (\<exists>h1 p h2 snap rep.
             DeleteEPS r h = Some h1 \<and> recorder_ServerMetrics r h1 = Some (p, h2) \<and>
             load p h2 = Some snap \<and> EPS snap = unset \<and>
             toLoadReportProto p h2 = Some rep \<and> pb_Eps rep = zero_value))"
proof (intro conjI)
  show "DeleteCPUUtilization r h = SetCPUUtilization r unset h"
    by (simp add: DeleteCPUUtilization_def)
  show "DeleteMemoryUtilization r h = SetMemoryUtilization r unset h"
    by (simp add: DeleteMemoryUtilization_def)
  show "DeleteQPS r h = SetQPS r unset h"
    by (simp add: DeleteQPS_def)
  show "DeleteEPS r h = SetEPS r unset h"
    by (simp add: DeleteEPS_def)
qed (rule DeleteCPUUtilization_snapshot DeleteMemoryUtilization_snapshot
      DeleteQPS_snapshot DeleteEPS_snapshot, rule assms)+

text \<open>
  On the example recorder, whose CPU utilization is 0.3: after the delete the snapshot
  has CPU utilization unset and the report omits it.
\<close>

theorem delete_scalar_is_set_unset_witness:
  "recorder_inv ex_recorder ex_heap \<and>
   (\<exists>h1 p h2 snap rep.
      DeleteCPUUtilization ex_recorder ex_heap = Some h1 \<and>
      recorder_ServerMetrics ex_recorder h1 = Some (p, h2) \<and>
      load p h2 = Some snap \<and> CPUUtilization snap = unset \<and>
      toLoadReportProto p h2 = Some rep \<and> pb_CpuUtilization rep = zero_value)"
  using delete_scalar_is_set_unset [OF ex_recorder_inv] ex_recorder_inv by blast

subsection \<open>A new recorder\<close>

lemma snapshot_value:
  assumes "recorder_inv r h"
  shows "\<exists>p h'. recorder_ServerMetrics r h = Some (p, h') \<and> value_at p h' = value_at (state r) h"
proof -
  from assms obtain p h' st snap where
    "recorder_ServerMetrics r h = Some (p, h')" "load (state r) h = Some st"
    "load (state r) h' = Some st" "load p h' = Some snap" "value_of snap h' = value_of st h"
    by (rule snapshot_spec)
  then show ?thesis by (simp add: value_at_def)
qed

text \<open>
  Claim C6. Whatever the heap, the recorder returned by \<open>NewServerMetricsRecorder\<close> has
  a state with the four scalars at the sentinel and three maps that are not nil and
  have no entries; its state is well formed, and a snapshot taken at once is the unset
  default value.
\<close>

theorem NewServerMetricsRecorder_unset:
  "case NewServerMetricsRecorder h of
     (r, h') \<Rightarrow>
       (\<exists>st. load (state r) h' = Some st \<and>
          CPUUtilization st = unset \<and> MemUtilization st = unset \<and>
          QPS st = unset \<and> EPS st = unset \<and>
          Utilization st \<noteq> None \<and> RequestCost st \<noteq> None \<and> NamedMetrics st \<noteq> None \<and>
          map_range (Utilization st) h' = Some [] \<and>
          map_range (RequestCost st) h' = Some [] \<and>
          map_range (NamedMetrics st) h' = Some []) \<and>
       recorder_inv r h' \<and>
       value_at (state r) h' = Some unset_default \<and>
       (\<exists>p h''. recorder_ServerMetrics r h' = Some (p, h'') \<and>
          value_at p h'' = Some unset_default)"
proof -
  obtain r h' where new: "newServerMetricsRecorder h = (r, h')"
    by (cases "newServerMetricsRecorder h")
  note res = new [unfolded newServerMetricsRecorder_result, simplified, THEN conjunct1, symmetric]
    new [unfolded newServerMetricsRecorder_result, simplified, THEN conjunct2, symmetric]
  have st: "\<exists>st. load (state r) h' = Some st \<and>
          CPUUtilization st = unset \<and> MemUtilization st = unset \<and>
          QPS st = unset \<and> EPS st = unset \<and>
          Utilization st \<noteq> None \<and> RequestCost st \<noteq> None \<and> NamedMetrics st \<noteq> None \<and>
          map_range (Utilization st) h' = Some [] \<and>
          map_range (RequestCost st) h' = Some [] \<and>
          map_range (NamedMetrics st) h' = Some []"
    by (simp add: res load_def map_range_def nth_append)
  have inv: "recorder_inv r h'"
    by (simp add: res recorder_inv_def load_def wf_metrics_def live_map_def nth_append)
  have v: "value_at (state r) h' = Some unset_default"
    by (simp add: res value_at_def load_def value_of_def unset_default_def
        map_contents_def map_range_def nth_append)
  from snapshot_value [OF inv] v
  have "\<exists>p h''. recorder_ServerMetrics r h' = Some (p, h'') \<and> value_at p h'' = Some unset_default"
    by simp
  with st inv v show ?thesis
    by (simp add: NewServerMetricsRecorder_def new)
qed

text \<open>
  At the empty heap the new recorder's state is struct 0 with tables 0, 1 and 2, and the
  snapshot is the unset default.
\<close>

theorem NewServerMetricsRecorder_unset_witness:
  "NewServerMetricsRecorder \<lparr>metrics_store = [], map_store = []\<rparr> =
     (\<lparr>state = Some 0\<rparr>,
      \<lparr>metrics_store = [\<lparr>CPUUtilization = unset, MemUtilization = unset, QPS = unset,
                          EPS = unset, Utilization = Some 0, RequestCost = Some 1,
                          NamedMetrics = Some 2\<rparr>],
       map_store = [[], [], []]\<rparr>) \<and>
   (\<exists>p h''. recorder_ServerMetrics \<lparr>state = Some 0\<rparr>
               \<lparr>metrics_store = [\<lparr>CPUUtilization = unset, MemUtilization = unset, QPS = unset,
                          EPS = unset, Utilization = Some 0, RequestCost = Some 1,
                          NamedMetrics = Some 2\<rparr>],
                map_store = [[], [], []]\<rparr> = Some (p, h'') \<and>
      value_at p h'' = Some unset_default)"
  using NewServerMetricsRecorder_unset [of "\<lparr>metrics_store = [], map_store = []\<rparr>"]
  by (simp add: NewServerMetricsRecorder_def newServerMetricsRecorder_result numeral_2_eq_2)

subsection \<open>Named utilization\<close>

lemma SetNamedUtilization_value:
  assumes inv: "recorder_inv r h" and val: "value_at (state r) h = Some val"
  shows "\<exists>h1. SetNamedUtilization r x v h = Some h1 \<and> recorder_inv r h1 \<and>
           value_at (state r) h1 = Some (val\<lparr>m_utilization := (m_utilization val)(x \<mapsto> v)\<rparr>)"
proof -
  from inv obtain st where st: "load (state r) h = Some st" "wf_metrics st h"
    by (auto elim: recorder_invD)
  from st(2) obtain u c n where m:
    "Utilization st = Some u" "RequestCost st = Some c" "NamedMetrics st = Some n"
    "u < length (map_store h)" "c < length (map_store h)" "n < length (map_store h)"
    "distinct (map fst (map_store h ! u))" "distinct (map fst (map_store h ! c))"
    "distinct (map fst (map_store h ! n))"
    "u \<noteq> c" "u \<noteq> n" "c \<noteq> n"
    by (rule wf_metricsD)
  let ?h1 = "h\<lparr>map_store := (map_store h)[u := AList.update x v (map_store h ! u)]\<rparr>"
  have 1: "SetNamedUtilization r x v h = Some ?h1"
    using st m by (simp add: SetNamedUtilization_def map_assign_def)
  have 2: "recorder_inv r ?h1"
    using st m by (simp add: recorder_inv_def wf_metrics_def live_map_def distinct_update nth_list_update)
  have 3: "value_at (state r) ?h1 = Some (val\<lparr>m_utilization := (m_utilization val)(x \<mapsto> v)\<rparr>)"
    using val st m
    by (auto simp add: value_at_def value_of_def map_contents_live update_conv')
  from 1 2 3 show ?thesis by blast
qed

lemma DeleteNamedUtilization_value:
  assumes inv: "recorder_inv r h" and val: "value_at (state r) h = Some val"
  shows "\<exists>h1. DeleteNamedUtilization r x h = Some h1 \<and> recorder_inv r h1 \<and>
           value_at (state r) h1 = Some (val\<lparr>m_utilization := (m_utilization val)(x := None)\<rparr>)"
proof -
  from inv obtain st where st: "load (state r) h = Some st" "wf_metrics st h"
    by (auto elim: recorder_invD)
  from st(2) obtain u c n where m:
    "Utilization st = Some u" "RequestCost st = Some c" "NamedMetrics st = Some n"
    "u < length (map_store h)" "c < length (map_store h)" "n < length (map_store h)"
    "distinct (map fst (map_store h ! u))" "distinct (map fst (map_store h ! c))"
    "distinct (map fst (map_store h ! n))"
    "u \<noteq> c" "u \<noteq> n" "c \<noteq> n"
    by (rule wf_metricsD)
  let ?h1 = "h\<lparr>map_store := (map_store h)[u := AList.delete x (map_store h ! u)]\<rparr>"
  have 1: "DeleteNamedUtilization r x h = Some ?h1"
    using st m by (simp add: DeleteNamedUtilization_def map_delete_def)
  have 2: "recorder_inv r ?h1"
    using st m by (simp add: recorder_inv_def wf_metrics_def live_map_def distinct_delete nth_list_update)
  have 3: "value_at (state r) ?h1 = Some (val\<lparr>m_utilization := (m_utilization val)(x := None)\<rparr>)"
    using val st m
    by (auto simp add: value_at_def value_of_def map_contents_live delete_conv')
  from 1 2 3 show ?thesis by blast
qed

text \<open>
  Claim C8. On a recorder whose state is well formed and denotes \<open>val\<close>,
  \<open>SetNamedUtilization x v\<close> succeeds and the snapshot taken next is \<open>val\<close> with
  \<open>x\<close> mapped to \<open>v\<close> in its utilization map; \<open>DeleteNamedUtilization x\<close> succeeds and
  the snapshot taken next is \<open>val\<close> with \<open>x\<close> absent from its utilization map.
\<close>

theorem named_utilization_round_trip:
  assumes "recorder_inv r h" and "value_at (state r) h = Some val"
  shows "(\<exists>h1 p h2 val'.
            SetNamedUtilization r x v h = Some h1 \<and>
            recorder_ServerMetrics r h1 = Some (p, h2) \<and> value_at p h2 = Some val' \<and>
            val' = val\<lparr>m_utilization := (m_utilization val)(x \<mapsto> v)\<rparr> \<and>
            m_utilization val' x = Some v) \<and>
         (\<exists>h1 p h2 val'.
            DeleteNamedUtilization r x h = Some h1 \<and>
            recorder_ServerMetrics r h1 = Some (p, h2) \<and> value_at p h2 = Some val' \<and>
            val' = val\<lparr>m_utilization := (m_utilization val)(x := None)\<rparr> \<and>
            m_utilization val' x = None)"
proof
  from SetNamedUtilization_value [OF assms, of x v] obtain h1 where
    1: "SetNamedUtilization r x v h = Some h1" "recorder_inv r h1"
    "value_at (state r) h1 = Some (val\<lparr>m_utilization := (m_utilization val)(x \<mapsto> v)\<rparr>)"
    by blast
  from snapshot_value [OF 1(2)] 1(1,3)
  show "\<exists>h1 p h2 val'.
            SetNamedUtilization r x v h = Some h1 \<and>
            recorder_ServerMetrics r h1 = Some (p, h2) \<and> value_at p h2 = Some val' \<and>
            val' = val\<lparr>m_utilization := (m_utilization val)(x \<mapsto> v)\<rparr> \<and>
            m_utilization val' x = Some v"
    by auto
next
  from DeleteNamedUtilization_value [OF assms, of x] obtain h1 where
    1: "DeleteNamedUtilization r x h = Some h1" "recorder_inv r h1"
    "value_at (state r) h1 = Some (val\<lparr>m_utilization := (m_utilization val)(x := None)\<rparr>)"
    by blast
  from snapshot_value [OF 1(2)] 1(1,3)
  show "\<exists>h1 p h2 val'.
            DeleteNamedUtilization r x h = Some h1 \<and>
            recorder_ServerMetrics r h1 = Some (p, h2) \<and> value_at p h2 = Some val' \<and>
            val' = val\<lparr>m_utilization := (m_utilization val)(x := None)\<rparr> \<and>
            m_utilization val' x = None"
    by auto
qed

lemma ex_recorder_value:
  "value_at (state ex_recorder) ex_heap =
     Some \<lparr>m_cpu = 0x3FD3333333333333, m_mem = unset, m_qps = unset, m_eps = zero_value,
           m_utilization = [''a'' \<mapsto> 0x3FF0000000000000],
           m_request_cost = [''c'' \<mapsto> 0x4014000000000000],
           m_named_metrics = Map.empty\<rparr>"
  by (simp add: value_at_def ex_recorder_def load_def ex_heap_def ex_A_def value_of_def
      map_contents_def map_range_def)

text \<open>
  On the example recorder: setting \<open>x\<close> to 0.5 and deleting the existing key \<open>a\<close>.
\<close>

theorem named_utilization_round_trip_witness:
  "recorder_inv ex_recorder ex_heap \<and>
   (\<exists>h1 p h2 val'.
      SetNamedUtilization ex_recorder ''x'' 0x3FE0000000000000 ex_heap = Some h1 \<and>
      recorder_ServerMetrics ex_recorder h1 = Some (p, h2) \<and> value_at p h2 = Some val' \<and>
      m_utilization val' ''x'' = Some 0x3FE0000000000000 \<and>
      m_utilization val' ''a'' = Some 0x3FF0000000000000) \<and>
   (\<exists>h1 p h2 val'.
      DeleteNamedUtilization ex_recorder ''a'' ex_heap = Some h1 \<and>
      recorder_ServerMetrics ex_recorder h1 = Some (p, h2) \<and> value_at p h2 = Some val' \<and>
      m_utilization val' ''a'' = None)"
proof -
  note set_x = named_utilization_round_trip [OF ex_recorder_inv ex_recorder_value,
      of "''x''" "0x3FE0000000000000", THEN conjunct1]
  note del_a = named_utilization_round_trip [OF ex_recorder_inv ex_recorder_value,
      of "''a''" 0, THEN conjunct2]
  have 1: "\<exists>h1 p h2 val'.
      SetNamedUtilization ex_recorder ''x'' 0x3FE0000000000000 ex_heap = Some h1 \<and>
      recorder_ServerMetrics ex_recorder h1 = Some (p, h2) \<and> value_at p h2 = Some val' \<and>
      m_utilization val' ''x'' = Some 0x3FE0000000000000 \<and>
      m_utilization val' ''a'' = Some 0x3FF0000000000000"
    using set_x by auto
  have 2: "\<exists>h1 p h2 val'.
      DeleteNamedUtilization ex_recorder ''a'' ex_heap = Some h1 \<and>
      recorder_ServerMetrics ex_recorder h1 = Some (p, h2) \<and> value_at p h2 = Some val' \<and>
      m_utilization val' ''a'' = None"
    using del_a by auto
  from ex_recorder_inv 1 2 show ?thesis by blast
qed

subsection \<open>Deleting a name that is not there\<close>

lemma map_delete_absent:
  assumes "a < length (map_store h)" "x \<notin> dom (map_of (map_store h ! a))"
  shows "map_delete (Some a) x h = Some h"
proof -
  from assms(2) have "AList.delete x (map_store h ! a) = map_store h ! a"
    by (simp add: dom_map_of_conv_image_fst)
  then show ?thesis
    using assms(1) by (simp add: map_delete_def)
qed

text \<open>
  Claim C10. On a recorder whose state is well formed and denotes \<open>val\<close>, each of the
  three named deletes, called with a name that is not a key of its map, succeeds and
  returns the very same heap: no scalar and no map of the recorder (or of anything else)
  has changed.
\<close>

theorem delete_absent_name_unchanged:
  assumes "recorder_inv r h" and "value_at (state r) h = Some val"
  shows "(x \<notin> dom (m_utilization val) \<longrightarrow> DeleteNamedUtilization r x h = Some h) \<and>
         (x \<notin> dom (m_request_cost val) \<longrightarrow> DeleteRequestCost r x h = Some h) \<and>
         (x \<notin> dom (m_named_metrics val) \<longrightarrow> DeleteNamedMetric r x h = Some h)"
proof -
  from assms(1) obtain st where st: "load (state r) h = Some st" "wf_metrics st h"
    by (auto elim: recorder_invD)
  from st(2) obtain u c n where m:
    "Utilization st = Some u" "RequestCost st = Some c" "NamedMetrics st = Some n"
    "u < length (map_store h)" "c < length (map_store h)" "n < length (map_store h)"
    by (rule wf_metricsD)
  from assms(2) st(1) have val: "val = value_of st h"
    by (simp add: value_at_def)
  have "x \<notin> dom (m_utilization val) \<Longrightarrow> DeleteNamedUtilization r x h = Some h"
    using m by (simp add: DeleteNamedUtilization_def st val value_of_def map_contents_live
        map_delete_absent)
  moreover have "x \<notin> dom (m_request_cost val) \<Longrightarrow> DeleteRequestCost r x h = Some h"
    using m by (simp add: DeleteRequestCost_def st val value_of_def map_contents_live
        map_delete_absent)
  moreover have "x \<notin> dom (m_named_metrics val) \<Longrightarrow> DeleteNamedMetric r x h = Some h"
    using m by (simp add: DeleteNamedMetric_def st val value_of_def map_contents_live
        map_delete_absent)
  ultimately show ?thesis by blast
qed

text \<open>
  On the example recorder the name \<open>zz\<close> is in none of the three maps, and deleting it
  from each returns the example heap.
\<close>

theorem delete_absent_name_unchanged_witness:
  "recorder_inv ex_recorder ex_heap \<and>
   DeleteNamedUtilization ex_recorder ''zz'' ex_heap = Some ex_heap \<and>
   DeleteRequestCost ex_recorder ''zz'' ex_heap = Some ex_heap \<and>
   DeleteNamedMetric ex_recorder ''zz'' ex_heap = Some ex_heap"
  using delete_absent_name_unchanged [OF ex_recorder_inv ex_recorder_value, of "''zz''"]
    ex_recorder_inv
  by simp

subsection \<open>Merge\<close>

lemma mergeMap_live:
  "a < length (map_store h) \<Longrightarrow> b < length (map_store h) \<Longrightarrow>
   mergeMap (Some a) (Some b) h =
     Some (h\<lparr>map_store :=
              (map_store h)[a := fold (\<lambda>(k, v). AList.update k v) (map_store h ! b) (map_store h ! a)]\<rparr>)"
  by (simp add: mergeMap_def map_range_def range_assign_live)

lemma assign_if_set:
  "a < length (metrics_store h) \<Longrightarrow>
   (if P then do { s \<leftarrow> load (Some a) h; store (Some a) (f s) h } else Some h) =
     Some (h\<lparr>metrics_store :=
              (metrics_store h)[a := (if P then f (metrics_store h ! a) else metrics_store h ! a)]\<rparr>)"
  by (simp add: load_def store_def)

lemma separateD:
  assumes "separate s t"
    "Utilization s = Some u" "RequestCost s = Some c" "NamedMetrics s = Some n"
    "Utilization t = Some u'" "RequestCost t = Some c'" "NamedMetrics t = Some n'"
  shows "u \<noteq> u'" "u \<noteq> c'" "u \<noteq> n'" "c \<noteq> u'" "c \<noteq> c'" "c \<noteq> n'" "n \<noteq> u'" "n \<noteq> c'" "n \<noteq> n'"
  using assms by (auto simp: separate_def)

lemma merge_result:
  assumes a: "a < length (metrics_store h)" "metrics_store h ! a = s"
    and b: "b < length (metrics_store h)" "metrics_store h ! b = t" and ne: "a \<noteq> b"
    and s: "Utilization s = Some u" "RequestCost s = Some c" "NamedMetrics s = Some n"
    and t: "Utilization t = Some u'" "RequestCost t = Some c'" "NamedMetrics t = Some n'"
    and len: "u < length (map_store h)" "c < length (map_store h)" "n < length (map_store h)"
      "u' < length (map_store h)" "c' < length (map_store h)" "n' < length (map_store h)"
    and d: "u \<noteq> c" "u \<noteq> n" "c \<noteq> n"
    and sep: "u \<noteq> u'" "u \<noteq> c'" "u \<noteq> n'" "c \<noteq> u'" "c \<noteq> c'" "c \<noteq> n'"
      "n \<noteq> u'" "n \<noteq> c'" "n \<noteq> n'"
  shows "merge (Some a) (Some b) h =
     Some (h\<lparr>metrics_store := (metrics_store h)
                [a := s\<lparr>CPUUtilization := (if CPUUtilization t \<noteq> unset then CPUUtilization t
                                           else CPUUtilization s),
                        MemUtilization := (if MemUtilization t \<noteq> unset then MemUtilization t
                                           else MemUtilization s),
                        QPS := (if QPS t \<noteq> unset then QPS t else QPS s),
                        EPS := (if EPS t \<noteq> unset then EPS t else EPS s)\<rparr>],
              map_store := (map_store h)
                [u := fold (\<lambda>(k, v). AList.update k v) (map_store h ! u') (map_store h ! u),
                 c := fold (\<lambda>(k, v). AList.update k v) (map_store h ! c') (map_store h ! c),
                 n := fold (\<lambda>(k, v). AList.update k v) (map_store h ! n') (map_store h ! n)]\<rparr>)"
  unfolding merge_def
  using assms
  by (simp add: assign_if_set mergeMap_live load_def)

lemma merge_cases:
  assumes sm: "load sm h = Some s" and o': "load o' h = Some t" and ne: "sm \<noteq> o'"
    and wfs: "wf_metrics s h" and wft: "wf_metrics t h" and sep: "separate s t"
  obtains a b u c n u' c' n' where
    "sm = Some a" "o' = Some b"
    "a < length (metrics_store h)" "metrics_store h ! a = s"
    "b < length (metrics_store h)" "metrics_store h ! b = t" "a \<noteq> b"
    "Utilization s = Some u" "RequestCost s = Some c" "NamedMetrics s = Some n"
    "Utilization t = Some u'" "RequestCost t = Some c'" "NamedMetrics t = Some n'"
    "u < length (map_store h)" "c < length (map_store h)" "n < length (map_store h)"
    "u' < length (map_store h)" "c' < length (map_store h)" "n' < length (map_store h)"
    "distinct (map fst (map_store h ! u))" "distinct (map fst (map_store h ! c))"
    "distinct (map fst (map_store h ! n))"
    "distinct (map fst (map_store h ! u'))" "distinct (map fst (map_store h ! c'))"
    "distinct (map fst (map_store h ! n'))"
    "u \<noteq> c" "u \<noteq> n" "c \<noteq> n"
    "u \<noteq> u'" "u \<noteq> c'" "u \<noteq> n'" "c \<noteq> u'" "c \<noteq> c'" "c \<noteq> n'"
    "n \<noteq> u'" "n \<noteq> c'" "n \<noteq> n'"
    "merge sm o' h =
     Some (h\<lparr>metrics_store := (metrics_store h)
                [a := s\<lparr>CPUUtilization := (if CPUUtilization t \<noteq> unset then CPUUtilization t
                                           else CPUUtilization s),
                        MemUtilization := (if MemUtilization t \<noteq> unset then MemUtilization t
                                           else MemUtilization s),
                        QPS := (if QPS t \<noteq> unset then QPS t else QPS s),
                        EPS := (if EPS t \<noteq> unset then EPS t else EPS s)\<rparr>],
              map_store := (map_store h)
                [u := fold (\<lambda>(k, v). AList.update k v) (map_store h ! u') (map_store h ! u),
                 c := fold (\<lambda>(k, v). AList.update k v) (map_store h ! c') (map_store h ! c),
                 n := fold (\<lambda>(k, v). AList.update k v) (map_store h ! n') (map_store h ! n)]\<rparr>)"
proof -
  from sm obtain a where a: "sm = Some a" "a < length (metrics_store h)" "metrics_store h ! a = s"
    by (auto simp: load_Some_iff)
  from o' obtain b where b: "o' = Some b" "b < length (metrics_store h)" "metrics_store h ! b = t"
    by (auto simp: load_Some_iff)
  from ne a b have ab: "a \<noteq> b" by simp
  from wfs obtain u c n where s:
    "Utilization s = Some u" "RequestCost s = Some c" "NamedMetrics s = Some n"
    "u < length (map_store h)" "c < length (map_store h)" "n < length (map_store h)"
    "distinct (map fst (map_store h ! u))" "distinct (map fst (map_store h ! c))"
    "distinct (map fst (map_store h ! n))"
    "u \<noteq> c" "u \<noteq> n" "c \<noteq> n"
    by (rule wf_metricsD)
  from wft obtain u' c' n' where t:
    "Utilization t = Some u'" "RequestCost t = Some c'" "NamedMetrics t = Some n'"
    "u' < length (map_store h)" "c' < length (map_store h)" "n' < length (map_store h)"
    "distinct (map fst (map_store h ! u'))" "distinct (map fst (map_store h ! c'))"
    "distinct (map fst (map_store h ! n'))"
    by (rule wf_metricsD)
  note sp = separateD [OF sep s(1-3) t(1-3)]
  note res = merge_result [OF a(2,3) b(2,3) ab s(1-3) t(1-3) s(4-6) t(4-6) s(10-12) sp]
  show thesis
    by (rule that [OF a(1) b(1) a(2,3) b(2,3) ab s(1-3) t(1-3) s(4-6) t(4-6) s(7-9) t(7-9)
          s(10-12) sp]) (simp only: a(1) b(1) res)
qed

text \<open>
  Claim C1. Let \<open>sm\<close> and \<open>o\<close> point to two different well-formed ServerMetrics that
  share no map. Then \<open>merge\<close> succeeds; afterwards each scalar of \<open>sm\<close> is that of
  \<open>o\<close> when \<open>o\<close>'s is not the sentinel and is unchanged otherwise, and each of the
  three maps of \<open>sm\<close> is its old contents overridden by the contents of \<open>o\<close>'s map
  (\<open>m ++ m'\<close> takes the entry of \<open>m'\<close> for every key of \<open>m'\<close> and that of \<open>m\<close> for
  the others). \<open>sm\<close> keeps its three tables, and \<open>o\<close> is unchanged.
\<close>

theorem merge_overwrites:
  assumes "load sm h = Some s" and "load o' h = Some t" and "sm \<noteq> o'"
    and "wf_metrics s h" and "wf_metrics t h" and "separate s t"
  shows "\<exists>h' s'. merge sm o' h = Some h' \<and> load sm h' = Some s' \<and>
           CPUUtilization s' =
             (if CPUUtilization t \<noteq> unset then CPUUtilization t else CPUUtilization s) \<and>
           MemUtilization s' =
             (if MemUtilization t \<noteq> unset then MemUtilization t else MemUtilization s) \<and>
           QPS s' = (if QPS t \<noteq> unset then QPS t else QPS s) \<and>
           EPS s' = (if EPS t \<noteq> unset then EPS t else EPS s) \<and>
           Utilization s' = Utilization s \<and> RequestCost s' = RequestCost s \<and>
           NamedMetrics s' = NamedMetrics s \<and>
           map_contents (Utilization s') h' =
             map_contents (Utilization s) h ++ map_contents (Utilization t) h \<and>
           map_contents (RequestCost s') h' =
             map_contents (RequestCost s) h ++ map_contents (RequestCost t) h \<and>
           map_contents (NamedMetrics s') h' =
             map_contents (NamedMetrics s) h ++ map_contents (NamedMetrics t) h \<and>
           load o' h' = Some t \<and> value_of t h' = value_of t h"
  by (rule merge_cases [OF assms])
    (simp add: load_update value_of_def map_contents_live map_of_fold_update)

text \<open>
  The merge example: \<open>A\<close> (CPU 0.3, QPS unset, utilization \<open>{a: 1}\<close>) merged with
  \<open>B\<close> (CPU unset, QPS 10, utilization \<open>{a: 2, b: 3}\<close>) keeps CPU 0.3, takes QPS 10
  and has utilization \<open>{a: 2, b: 3}\<close>; the request cost \<open>{c: 5}\<close> of \<open>A\<close> stays.
\<close>

theorem merge_overwrites_witness:
  "load (Some 0) ex_heap = Some ex_A \<and> load (Some 1) ex_heap = Some ex_B \<and>
   wf_metrics ex_A ex_heap \<and> wf_metrics ex_B ex_heap \<and> separate ex_A ex_B \<and>
   (\<exists>h' s'. merge (Some 0) (Some 1) ex_heap = Some h' \<and> load (Some 0) h' = Some s' \<and>
      CPUUtilization s' = 0x3FD3333333333333 \<and> QPS s' = 0x4024000000000000 \<and>
      map_contents (Utilization s') h' = [''a'' \<mapsto> 0x4000000000000000, ''b'' \<mapsto> 0x4008000000000000] \<and>
      map_contents (RequestCost s') h' = [''c'' \<mapsto> 0x4014000000000000])"
proof -
  have 1: "load (Some 0) ex_heap = Some ex_A" "load (Some 1) ex_heap = Some ex_B"
    by (simp_all add: load_def ex_heap_def)
  have 2: "wf_metrics ex_A ex_heap" "wf_metrics ex_B ex_heap" "separate ex_A ex_B"
    by (simp_all add: wf_metrics_def live_map_def separate_def ex_heap_def ex_A_def ex_B_def)
  have 3: "(Some 0 :: ptr) \<noteq> Some 1" by simp
  have u: "map_contents (Utilization ex_A) ex_heap ++ map_contents (Utilization ex_B) ex_heap
           = [''a'' \<mapsto> 0x4000000000000000, ''b'' \<mapsto> 0x4008000000000000]"
    by (rule ext) (simp add: map_contents_def map_range_def ex_heap_def ex_A_def ex_B_def map_add_def)
  have c: "map_contents (RequestCost ex_A) ex_heap ++ map_contents (RequestCost ex_B) ex_heap
           = [''c'' \<mapsto> 0x4014000000000000]"
    by (rule ext) (simp add: map_contents_def map_range_def ex_heap_def ex_A_def ex_B_def map_add_def)
  from merge_overwrites [OF 1 3 2] obtain h' s' where
    "merge (Some 0) (Some 1) ex_heap = Some h'" "load (Some 0) h' = Some s'"
    "CPUUtilization s' = (if CPUUtilization ex_B \<noteq> unset then CPUUtilization ex_B else CPUUtilization ex_A)"
    "QPS s' = (if QPS ex_B \<noteq> unset then QPS ex_B else QPS ex_A)"
    "map_contents (Utilization s') h' =
       map_contents (Utilization ex_A) ex_heap ++ map_contents (Utilization ex_B) ex_heap"
    "map_contents (RequestCost s') h' =
       map_contents (RequestCost ex_A) ex_heap ++ map_contents (RequestCost ex_B) ex_heap"
    by blast
  then have "\<exists>h' s'. merge (Some 0) (Some 1) ex_heap = Some h' \<and> load (Some 0) h' = Some s' \<and>
      CPUUtilization s' = 0x3FD3333333333333 \<and> QPS s' = 0x4024000000000000 \<and>
      map_contents (Utilization s') h' = [''a'' \<mapsto> 0x4000000000000000, ''b'' \<mapsto> 0x4008000000000000] \<and>
      map_contents (RequestCost s') h' = [''c'' \<mapsto> 0x4014000000000000]"
    by (simp add: u c) (simp add: ex_A_def ex_B_def unset_def)
  with 1 2 show ?thesis by blast
qed

subsection \<open>Merging the default, merging twice\<close>

lemma merge_unset_default:
  assumes "load sm h = Some s" and "load o' h = Some t" and "sm \<noteq> o'"
    and "wf_metrics s h" and "wf_metrics t h" and "separate s t"
    and "value_of t h = unset_default"
  shows "merge sm o' h = Some h"
proof (rule merge_cases [OF assms(1-6)])
  fix a b u c n u' c' n'
  assume f: "Utilization t = Some u'" "RequestCost t = Some c'" "NamedMetrics t = Some n'"
    "u' < length (map_store h)" "c' < length (map_store h)" "n' < length (map_store h)"
    "metrics_store h ! a = s"
  assume res: "merge sm o' h =
     Some (h\<lparr>metrics_store := (metrics_store h)
                [a := s\<lparr>CPUUtilization := (if CPUUtilization t \<noteq> unset then CPUUtilization t
                                           else CPUUtilization s),
                        MemUtilization := (if MemUtilization t \<noteq> unset then MemUtilization t
                                           else MemUtilization s),
                        QPS := (if QPS t \<noteq> unset then QPS t else QPS s),
                        EPS := (if EPS t \<noteq> unset then EPS t else EPS s)\<rparr>],
              map_store := (map_store h)
                [u := fold (\<lambda>(k, v). AList.update k v) (map_store h ! u') (map_store h ! u),
                 c := fold (\<lambda>(k, v). AList.update k v) (map_store h ! c') (map_store h ! c),
                 n := fold (\<lambda>(k, v). AList.update k v) (map_store h ! n') (map_store h ! n)]\<rparr>)"
  from assms(7) have sc: "CPUUtilization t = unset" "MemUtilization t = unset"
    "QPS t = unset" "EPS t = unset"
    and mp: "map_contents (Utilization t) h = Map.empty"
      "map_contents (RequestCost t) h = Map.empty"
      "map_contents (NamedMetrics t) h = Map.empty"
    by (simp_all add: value_of_def unset_default_def)
  from mp f have e: "map_store h ! u' = []" "map_store h ! c' = []" "map_store h ! n' = []"
    by (simp_all add: map_contents_live)
  show ?thesis
    unfolding res by (simp add: sc e f(7) [symmetric])
qed

lemma merge_twice:
  assumes "load sm h = Some s" and "load o' h = Some t" and "sm \<noteq> o'"
    and "wf_metrics s h" and "wf_metrics t h" and "separate s t"
  shows "\<exists>h1. merge sm o' h = Some h1 \<and> merge sm o' h1 = Some h1"
proof (rule merge_cases [OF assms])
  fix a b u c n u' c' n'
  let ?s1 = "s\<lparr>CPUUtilization := (if CPUUtilization t \<noteq> unset then CPUUtilization t
                                           else CPUUtilization s),
                        MemUtilization := (if MemUtilization t \<noteq> unset then MemUtilization t
                                           else MemUtilization s),
                        QPS := (if QPS t \<noteq> unset then QPS t else QPS s),
                        EPS := (if EPS t \<noteq> unset then EPS t else EPS s)\<rparr>"
  let ?h1 = "h\<lparr>metrics_store := (metrics_store h)[a := ?s1],
              map_store := (map_store h)
                [u := fold (\<lambda>(k, v). AList.update k v) (map_store h ! u') (map_store h ! u),
                 c := fold (\<lambda>(k, v). AList.update k v) (map_store h ! c') (map_store h ! c),
                 n := fold (\<lambda>(k, v). AList.update k v) (map_store h ! n') (map_store h ! n)]\<rparr>"
  assume p: "sm = Some a" "o' = Some b"
    and a: "a < length (metrics_store h)" "metrics_store h ! a = s"
    and b: "b < length (metrics_store h)" "metrics_store h ! b = t" and ab: "a \<noteq> b"
    and s: "Utilization s = Some u" "RequestCost s = Some c" "NamedMetrics s = Some n"
    and t: "Utilization t = Some u'" "RequestCost t = Some c'" "NamedMetrics t = Some n'"
    and len: "u < length (map_store h)" "c < length (map_store h)" "n < length (map_store h)"
      "u' < length (map_store h)" "c' < length (map_store h)" "n' < length (map_store h)"
    and dt: "distinct (map fst (map_store h ! u'))" "distinct (map fst (map_store h ! c'))"
      "distinct (map fst (map_store h ! n'))"
    and d: "u \<noteq> c" "u \<noteq> n" "c \<noteq> n"
    and sep: "u \<noteq> u'" "u \<noteq> c'" "u \<noteq> n'" "c \<noteq> u'" "c \<noteq> c'" "c \<noteq> n'"
      "n \<noteq> u'" "n \<noteq> c'" "n \<noteq> n'"
    and res: "merge sm o' h = Some ?h1"
  have "merge (Some a) (Some b) ?h1 =
     Some (?h1\<lparr>metrics_store := (metrics_store ?h1)
                [a := ?s1\<lparr>CPUUtilization := (if CPUUtilization t \<noteq> unset then CPUUtilization t
                                           else CPUUtilization ?s1),
                        MemUtilization := (if MemUtilization t \<noteq> unset then MemUtilization t
                                           else MemUtilization ?s1),
                        QPS := (if QPS t \<noteq> unset then QPS t else QPS ?s1),
                        EPS := (if EPS t \<noteq> unset then EPS t else EPS ?s1)\<rparr>],
              map_store := (map_store ?h1)
                [u := fold (\<lambda>(k, v). AList.update k v) (map_store ?h1 ! u') (map_store ?h1 ! u),
                 c := fold (\<lambda>(k, v). AList.update k v) (map_store ?h1 ! c') (map_store ?h1 ! c),
                 n := fold (\<lambda>(k, v). AList.update k v) (map_store ?h1 ! n') (map_store ?h1 ! n)]\<rparr>)"
    by (rule merge_result [where s = ?s1 and t = t])
      (use a b ab s t len d sep in simp_all)
  also have "\<dots> = Some ?h1"
    using a b ab s t len d sep dt
    by (simp add: fold_update_idem list_update_swap [of c u] list_update_swap [of n u]
        list_update_swap [of n c])
  finally show ?thesis
    using res p by simp
qed

text \<open>
  Claim C9. Let \<open>sm\<close> and \<open>o\<close> point to two different well-formed ServerMetrics that
  share no map. If \<open>o\<close> denotes the unset default (four sentinels, three empty maps),
  \<open>merge\<close> returns the heap it was given, so \<open>sm\<close> is unchanged. For every \<open>o\<close>,
  merging it a second time returns the heap the first merge produced.
\<close>

theorem merge_default_identity_and_idempotent:
  assumes "load sm h = Some s" and "load o' h = Some t" and "sm \<noteq> o'"
    and "wf_metrics s h" and "wf_metrics t h" and "separate s t"
  shows "(value_of t h = unset_default \<longrightarrow> merge sm o' h = Some h) \<and>
         (\<exists>h1. merge sm o' h = Some h1 \<and> merge sm o' h1 = Some h1)"
  using merge_unset_default [OF assms] merge_twice [OF assms] by blast

text \<open>
  Merging the unset default into the example value \<open>A\<close> returns the heap unchanged, and
  merging \<open>B\<close> into \<open>A\<close> twice is merging it once.
\<close>

theorem merge_default_identity_and_idempotent_witness:
  "load (Some 0) ex_heap_unset = Some ex_A \<and> load (Some 1) ex_heap_unset = Some ex_unset \<and>
   wf_metrics ex_A ex_heap_unset \<and> wf_metrics ex_unset ex_heap_unset \<and>
   separate ex_A ex_unset \<and> value_of ex_unset ex_heap_unset = unset_default \<and>
   merge (Some 0) (Some 1) ex_heap_unset = Some ex_heap_unset \<and>
   (\<exists>h1. merge (Some 0) (Some 1) ex_heap = Some h1 \<and> merge (Some 0) (Some 1) h1 = Some h1)"
proof -
  have 1: "load (Some 0) ex_heap_unset = Some ex_A" "load (Some 1) ex_heap_unset = Some ex_unset"
    by (simp_all add: load_def ex_heap_unset_def)
  have 2: "wf_metrics ex_A ex_heap_unset" "wf_metrics ex_unset ex_heap_unset"
    "separate ex_A ex_unset"
    by (simp_all add: wf_metrics_def live_map_def separate_def ex_heap_unset_def ex_A_def
        ex_unset_def)
  have 3: "(Some 0 :: ptr) \<noteq> Some 1" by simp
  have 4: "value_of ex_unset ex_heap_unset = unset_default"
    by (simp add: value_of_def unset_default_def ex_unset_def ex_heap_unset_def
        map_contents_def map_range_def)
  have 5: "load (Some 0) ex_heap = Some ex_A" "load (Some 1) ex_heap = Some ex_B"
    by (simp_all add: load_def ex_heap_def)
  have 6: "wf_metrics ex_A ex_heap" "wf_metrics ex_B ex_heap" "separate ex_A ex_B"
    by (simp_all add: wf_metrics_def live_map_def separate_def ex_heap_def ex_A_def ex_B_def)
  from merge_default_identity_and_idempotent [OF 1 3 2] 4
  have a: "merge (Some 0) (Some 1) ex_heap_unset = Some ex_heap_unset" by blast
  from merge_default_identity_and_idempotent [OF 5 3 6]
  have b: "\<exists>h1. merge (Some 0) (Some 1) ex_heap = Some h1 \<and> merge (Some 0) (Some 1) h1 = Some h1"
    by blast
  from 1 2 4 a b show ?thesis by blast
qed

subsection \<open>What a mutation through a pointer can reach\<close>

lemma call_mutate: "call c r h = mutate (mutation_of c) (state r) h"
  by (cases c)
    (simp_all add: SetCPUUtilization_def DeleteCPUUtilization_def SetMemoryUtilization_def
      DeleteMemoryUtilization_def SetQPS_def DeleteQPS_def SetEPS_def DeleteEPS_def
      SetNamedUtilization_def DeleteNamedUtilization_def SetRequestCost_def
      DeleteRequestCost_def SetNamedMetric_def DeleteNamedMetric_def)


lemma set_scalar_maps [simp]:
  "Utilization (set_scalar f v s) = Utilization s"
  "RequestCost (set_scalar f v s) = RequestCost s"
  "NamedMetrics (set_scalar f v s) = NamedMetrics s"
  by (cases f; simp)+






subsection \<open>Independence of a snapshot\<close>






subsection \<open>Well-formedness is an invariant of the recorder\<close>

text \<open>
  The hypothesis \<open>recorder_inv\<close> of the theorems above holds of every recorder made by
  the constructor, is kept by the snapshot and is kept by every mutating method, each of
  which succeeds.
\<close>

lemma mutate_keeps_wf:
  assumes p: "load p h = Some s" and wf: "wf_metrics s h"
  shows "\<exists>h' s'. mutate m p h = Some h' \<and> load p h' = Some s' \<and> wf_metrics s' h'"
proof -
  from p obtain a where a: "p = Some a" "a < length (metrics_store h)"
    by (auto simp: load_Some_iff)
  from wf obtain u c n where w:
    "Utilization s = Some u" "RequestCost s = Some c" "NamedMetrics s = Some n"
    "u < length (map_store h)" "c < length (map_store h)" "n < length (map_store h)"
    "distinct (map fst (map_store h ! u))" "distinct (map fst (map_store h ! c))"
    "distinct (map fst (map_store h ! n))"
    "u \<noteq> c" "u \<noteq> n" "c \<noteq> n"
    by (rule wf_metricsD)
  show ?thesis
  proof (cases m)
    case (Assign f v)
    then show ?thesis
      using p a wf
      by (simp add: store_live load_update wf_metrics_same_maps [of "set_scalar f v s" s])
  next
    case (Put f k v)
    then show ?thesis
      using p w
      by (cases f)
        (simp_all add: map_assign_def wf_metrics_def live_map_def nth_list_update distinct_update)
  next
    case (Remove f k)
    then show ?thesis
      using p w
      by (cases f)
        (simp_all add: map_delete_def wf_metrics_def live_map_def nth_list_update distinct_delete)
  qed
qed

lemma call_keeps_recorder_inv:
  assumes "recorder_inv r h"
  shows "\<exists>h'. call c r h = Some h' \<and> recorder_inv r h'"
proof -
  from assms obtain st where "load (state r) h = Some st" "wf_metrics st h"
    by (auto elim: recorder_invD)
  from mutate_keeps_wf [OF this, of "mutation_of c"] show ?thesis
    by (auto simp: call_mutate recorder_inv_def)
qed

end
